theory Spec2Isabelle
  imports Complex_Main "HOL-Library.Sublist"
begin

section \<open>Values, errors and the world the driver runs in\<close>

text \<open>
  The driver \<^verbatim>\<open>go\<close> of \<^verbatim>\<open>main.py\<close> receives a nested configuration, sets two
  environment variables, computes the list of active steps, opens a temporary
  directory and then walks through six \<^verbatim>\<open>if name in active_steps\<close> blocks, each of
  which resolves its parameters from the configuration and invokes one stage.

  A configuration value is a YAML scalar or a nested mapping. A mapping is an
  association list: \<^verbatim>\<open>.items()\<close> reads it in order. The driver never calculates with
  a number, it only forwards it.
\<close>

datatype cval =
    VStr string
  | VInt int
  | VFloat real
  | VBool bool
  | VNone
  | VDict "(string \<times> cval) list"

text \<open>The exceptions that can leave \<^verbatim>\<open>go\<close>.\<close>

datatype error =
    KeyError string
  | TypeError
  | AttributeError
  | OSError
  | FileExistsError
  | CalledProcessError
  | ExecutionException

text \<open>
  A stage is invoked either as a child process (\<^verbatim>\<open>subprocess.run(command, check=True)\<close>)
  or through \<^verbatim>\<open>mlflow.run(uri, entry_point, parameters=...)\<close>.
\<close>

datatype call =
    SubprocessRun "cval list"
  | MlflowRun string string "(string \<times> cval) list"

text \<open>
  The state the driver reads and writes: the process environment, the current working
  directory, the directory the program was started from (what
  \<^verbatim>\<open>hydra.utils.get_original_cwd()\<close> returns), the directories and files that exist, and
  the log of the invocations made so far, each under the name of the block that made it.
\<close>

record world =
  environ :: "string \<rightharpoonup> string"
  cwd :: string
  original_cwd :: string
  dirs :: "string set"
  files :: "string \<rightharpoonup> string"
  calls :: "(string \<times> call) list"

text \<open>
  What the driver calls and does not define: the operating system's choice of a temporary
  directory, whether a file can be opened for writing, \<^verbatim>\<open>json.dump\<close> (the text it writes,
  and the exception it may raise), the formatting of a value that is not a string inside
  an f-string, and the outcome of an invocation (\<open>None\<close> when it succeeds), which may
  depend on the invocations made before it.
\<close>

record externals =
  mkdtemp :: "error + string"
  open_file :: "string \<Rightarrow> error option"
  json_dump :: "(string \<times> cval) list \<Rightarrow> string \<times> error option"
  format_value :: "cval \<Rightarrow> string"
  invoke :: "(string \<times> call) list \<Rightarrow> call \<Rightarrow> error option"

type_synonym step = "world \<Rightarrow> error option \<times> world"

section \<open>Library functions the driver uses\<close>

text \<open>\<^verbatim>\<open>_steps\<close>, the list at the top of the module.\<close>

definition all_steps :: "string list" where
  "all_steps =
     [''download'', ''basic_cleaning'', ''data_check'', ''data_split'',
      ''train_random_forest'', ''test_regression_model'']"

text \<open>
  \<^verbatim>\<open>s.split(sep)\<close> for a one-character separator: the pieces between the separators,
  empty pieces included, so that the empty string splits into one empty piece.
\<close>

fun str_split :: "char \<Rightarrow> string \<Rightarrow> string list" where
  "str_split sep [] = [[]]"
| "str_split sep (c # cs) =
     (if c = sep then [] # str_split sep cs
      else (case str_split sep cs of
              [] \<Rightarrow> [[c]]
            | piece # pieces \<Rightarrow> (c # piece) # pieces))"

text \<open>
  \<^verbatim>\<open>obj[key]\<close>: a mapping without the key raises \<^verbatim>\<open>KeyError\<close>, a scalar cannot be
  indexed by a string.
\<close>

definition getitem :: "cval \<Rightarrow> string \<Rightarrow> error + cval" where
  "getitem obj key =
     (case obj of
        VDict kvs \<Rightarrow> (case map_of kvs key of None \<Rightarrow> Inl (KeyError key) | Some v \<Rightarrow> Inr v)
      | _ \<Rightarrow> Inl TypeError)"

text \<open>\<^verbatim>\<open>config[section][key]\<close>.\<close>

definition cfg :: "cval \<Rightarrow> string \<Rightarrow> string \<Rightarrow> error + cval" where
  "cfg config section key =
     (case getitem config section of Inl e \<Rightarrow> Inl e | Inr sec \<Rightarrow> getitem sec key)"

text \<open>\<^verbatim>\<open>obj.items()\<close>: only a mapping has the method.\<close>

definition items :: "cval \<Rightarrow> error + (string \<times> cval) list" where
  "items obj = (case obj of VDict kvs \<Rightarrow> Inr kvs | _ \<Rightarrow> Inl AttributeError)"

text \<open>\<^verbatim>\<open>os.environ[name] = value\<close>: the value must be a string.\<close>

definition setenv :: "string \<Rightarrow> cval \<Rightarrow> world \<Rightarrow> error + world" where
  "setenv name v w =
     (case v of
        VStr s \<Rightarrow> Inr (w\<lparr>environ := (environ w)(name \<mapsto> s)\<rparr>)
      | _ \<Rightarrow> Inl TypeError)"

text \<open>\<^verbatim>\<open>os.path.join(a, b)\<close> on POSIX.\<close>

definition path_join :: "string \<Rightarrow> string \<Rightarrow> string" where
  "path_join a b =
     (if (case b of [] \<Rightarrow> False | c # _ \<Rightarrow> c = CHR ''/'') then b
      else if a = [] \<or> last a = CHR ''/'' then a @ b
      else a @ ''/'' @ b)"

text \<open>
  \<^verbatim>\<open>os.path.abspath(name)\<close> for a relative name: the name joined to the current
  working directory (the normalisation that follows changes nothing on a plain file name
  under a normalised directory).
\<close>

definition abspath :: "world \<Rightarrow> string \<Rightarrow> string" where
  "abspath w name = path_join (cwd w) name"

text \<open>A value inside an f-string: a string stands for itself.\<close>

definition fstring :: "externals \<Rightarrow> cval \<Rightarrow> string" where
  "fstring ext v = (case v of VStr s \<Rightarrow> s | _ \<Rightarrow> format_value ext v)"

text \<open>
  A dictionary display \<^verbatim>\<open>{k1: e1, k2: e2, ...}\<close> evaluates its entries from left to
  right; the first entry that raises ends the evaluation.
\<close>

fun dict_literal :: "(string \<times> (error + cval)) list \<Rightarrow> error + (string \<times> cval) list" where
  "dict_literal [] = Inr []"
| "dict_literal ((k, Inl e) # rest) = Inl e"
| "dict_literal ((k, Inr v) # rest) =
     (case dict_literal rest of Inl e \<Rightarrow> Inl e | Inr kvs \<Rightarrow> Inr ((k, v) # kvs))"

text \<open>A path lies inside a directory when it continues the directory's name after a slash.\<close>

definition inside :: "string \<Rightarrow> string \<Rightarrow> bool" where
  "inside d p = (prefix (d @ ''/'') p \<and> p \<noteq> d @ ''/'')"

text \<open>
  Leaving \<^verbatim>\<open>with tempfile.TemporaryDirectory()\<close> removes the directory and everything
  under it.
\<close>

definition rmtree :: "string \<Rightarrow> world \<Rightarrow> world" where
  "rmtree d w =
     w\<lparr>dirs := {x \<in> dirs w. x \<noteq> d \<and> \<not> inside d x},
       files := (\<lambda>p. if inside d p then None else files w p)\<rparr>"

section \<open>Sequencing\<close>

text \<open>
  Statements run one after the other; an exception skips the rest. The world reached when
  the exception was raised is kept, since what was done before it stays done.
\<close>

definition seq :: "step \<Rightarrow> step \<Rightarrow> step" where
  "seq f g w = (case f w of (None, w') \<Rightarrow> g w' | (Some e, w') \<Rightarrow> (Some e, w'))"

definition when_active :: "bool \<Rightarrow> step \<Rightarrow> step" where
  "when_active b f w = (if b then f w else (None, w))"

text \<open>An invocation blocks until the stage is done, and is logged whatever its outcome.\<close>

definition run_call :: "externals \<Rightarrow> string \<Rightarrow> call \<Rightarrow> step" where
  "run_call ext name c w = (invoke ext (calls w) c, w\<lparr>calls := calls w @ [(name, c)]\<rparr>)"

text \<open>The arguments of an invocation are evaluated first; if that raises, nothing is invoked.\<close>

definition resolve_then_run :: "externals \<Rightarrow> string \<Rightarrow> (world \<Rightarrow> error + call) \<Rightarrow> step" where
  "resolve_then_run ext name resolve w =
     (case resolve w of Inl e \<Rightarrow> (Some e, w) | Inr c \<Rightarrow> run_call ext name c w)"

definition mlflow_call :: "error + string \<Rightarrow> (string \<times> (error + cval)) list \<Rightarrow> error + call" where
  "mlflow_call uri entries =
     (case uri of
        Inl e \<Rightarrow> Inl e
      | Inr u \<Rightarrow> (case dict_literal entries of
                   Inl e \<Rightarrow> Inl e
                 | Inr ps \<Rightarrow> Inr (MlflowRun u ''main'' ps)))"

section \<open>The six stages\<close>

definition local_uri :: "world \<Rightarrow> string \<Rightarrow> error + string" where
  "local_uri w name = Inr (path_join (path_join (original_cwd w) ''src'') name)"

definition components_uri :: "externals \<Rightarrow> cval \<Rightarrow> string \<Rightarrow> error + string" where
  "components_uri ext config name =
     (case cfg config ''main'' ''components_repository'' of
        Inl e \<Rightarrow> Inl e
      | Inr repo \<Rightarrow> Inr (fstring ext repo @ ''/'' @ name))"

definition download_call :: "cval \<Rightarrow> world \<Rightarrow> error + call" where
  "download_call config w =
     (case cfg config ''etl'' ''sample'' of
        Inl e \<Rightarrow> Inl e
      | Inr sample \<Rightarrow>
          Inr (SubprocessRun
                 [VStr ''python'', VStr ''components/get_data/manual.py'',
                  VStr ''--sample'', sample,
                  VStr ''--artifact_name'', VStr ''sample.csv'',
                  VStr ''--artifact_type'', VStr ''raw_data'',
                  VStr ''--artifact_description'', VStr ''Raw file as downloaded'']))"

definition basic_cleaning_call :: "cval \<Rightarrow> world \<Rightarrow> error + call" where
  "basic_cleaning_call config w =
     mlflow_call (local_uri w ''basic_cleaning'')
       [(''input_artifact'', Inr (VStr ''sample.csv:latest'')),
        (''output_artifact'', Inr (VStr ''clean_sample.csv'')),
        (''output_type'', Inr (VStr ''clean_sample'')),
        (''output_description'', Inr (VStr ''Data with outliers and null values removed'')),
        (''min_price'', cfg config ''etl'' ''min_price''),
        (''max_price'', cfg config ''etl'' ''max_price'')]"

definition data_check_call :: "cval \<Rightarrow> world \<Rightarrow> error + call" where
  "data_check_call config w =
     mlflow_call (local_uri w ''data_check'')
       [(''csv'', Inr (VStr ''clean_sample.csv:latest'')),
        (''ref'', Inr (VStr ''clean_sample.csv:reference'')),
        (''kl_threshold'', cfg config ''data_check'' ''kl_threshold''),
        (''min_price'', cfg config ''data_check'' ''min_price''),
        (''max_price'', cfg config ''data_check'' ''max_price'')]"

definition data_split_call :: "externals \<Rightarrow> cval \<Rightarrow> world \<Rightarrow> error + call" where
  "data_split_call ext config w =
     mlflow_call (components_uri ext config ''train_val_test_split'')
       [(''input'', Inr (VStr ''clean_sample.csv:latest'')),
        (''test_size'', cfg config ''modeling'' ''test_size''),
        (''random_seed'', cfg config ''modeling'' ''random_seed''),
        (''stratify_by'', cfg config ''modeling'' ''stratify_by'')]"

definition train_random_forest_call :: "cval \<Rightarrow> world \<Rightarrow> error + call" where
  "train_random_forest_call config w =
     mlflow_call (local_uri w ''train_random_forest'')
       [(''trainval_artifact'', Inr (VStr ''trainval_data.csv:latest'')),
        (''val_size'', cfg config ''modeling'' ''val_size''),
        (''random_seed'', cfg config ''modeling'' ''random_seed''),
        (''stratify_by'', cfg config ''modeling'' ''stratify_by''),
        (''rf_config'', Inr (VStr (abspath w ''rf_config.json''))),
        (''max_tfidf_features'', cfg config ''modeling'' ''max_tfidf_features''),
        (''output_artifact'', Inr (VStr ''random_forest_export''))]"

definition test_regression_model_call :: "externals \<Rightarrow> cval \<Rightarrow> world \<Rightarrow> error + call" where
  "test_regression_model_call ext config w =
     mlflow_call (components_uri ext config ''test_regression_model'')
       [(''mlflow_model'', Inr (VStr ''random_forest_export:prod'')),
        (''test_dataset'', Inr (VStr ''test_data.csv:latest''))]"

text \<open>
  The training block first opens \<^verbatim>\<open>rf_config.json\<close> under the current working
  directory for writing (which creates or empties it), then reads
  \<^verbatim>\<open>config["modeling"]["random_forest"]\<close>, dumps its items into the file, and only
  then resolves the parameters and invokes the stage.
\<close>

definition write_rf_config :: "externals \<Rightarrow> cval \<Rightarrow> step" where
  "write_rf_config ext config w =
     (let rf_config = abspath w ''rf_config.json'' in
      case open_file ext rf_config of
        Some e \<Rightarrow> (Some e, w)
      | None \<Rightarrow>
          (let w1 = w\<lparr>files := (files w)(rf_config \<mapsto> [])\<rparr> in
           case cfg config ''modeling'' ''random_forest'' of
             Inl e \<Rightarrow> (Some e, w1)
           | Inr rf \<Rightarrow>
               (case items rf of
                  Inl e \<Rightarrow> (Some e, w1)
                | Inr kvs \<Rightarrow>
                    (case json_dump ext kvs of
                       (written, r) \<Rightarrow> (r, w1\<lparr>files := (files w1)(rf_config \<mapsto> written)\<rparr>)))))"

definition download :: "externals \<Rightarrow> cval \<Rightarrow> step" where
  "download ext config = resolve_then_run ext ''download'' (download_call config)"

definition basic_cleaning :: "externals \<Rightarrow> cval \<Rightarrow> step" where
  "basic_cleaning ext config =
     resolve_then_run ext ''basic_cleaning'' (basic_cleaning_call config)"

definition data_check :: "externals \<Rightarrow> cval \<Rightarrow> step" where
  "data_check ext config = resolve_then_run ext ''data_check'' (data_check_call config)"

definition data_split :: "externals \<Rightarrow> cval \<Rightarrow> step" where
  "data_split ext config = resolve_then_run ext ''data_split'' (data_split_call ext config)"

definition train_random_forest :: "externals \<Rightarrow> cval \<Rightarrow> step" where
  "train_random_forest ext config =
     seq (write_rf_config ext config)
         (resolve_then_run ext ''train_random_forest'' (train_random_forest_call config))"

definition test_regression_model :: "externals \<Rightarrow> cval \<Rightarrow> step" where
  "test_regression_model ext config =
     resolve_then_run ext ''test_regression_model'' (test_regression_model_call ext config)"

section \<open>The driver\<close>

text \<open>
  \<^verbatim>\<open>active_steps = steps_par.split(",") if steps_par != "all" else _steps\<close>: a value
  that is not a string differs from \<^verbatim>\<open>"all"\<close> and has no \<^verbatim>\<open>split\<close>.
\<close>

definition active_steps :: "cval \<Rightarrow> error + string list" where
  "active_steps steps_par =
     (if steps_par \<noteq> VStr ''all''
      then (case steps_par of
              VStr s \<Rightarrow> Inr (str_split CHR '','' s)
            | _ \<Rightarrow> Inl AttributeError)
      else Inr all_steps)"

text \<open>The body of the \<^verbatim>\<open>with\<close> block: six guarded blocks, in this order.\<close>

definition pipeline :: "externals \<Rightarrow> cval \<Rightarrow> string list \<Rightarrow> step" where
  "pipeline ext config active =
     seq (when_active (''download'' \<in> set active) (download ext config))
    (seq (when_active (''basic_cleaning'' \<in> set active) (basic_cleaning ext config))
    (seq (when_active (''data_check'' \<in> set active) (data_check ext config))
    (seq (when_active (''data_split'' \<in> set active) (data_split ext config))
    (seq (when_active (''train_random_forest'' \<in> set active) (train_random_forest ext config))
         (when_active (''test_regression_model'' \<in> set active)
            (test_regression_model ext config))))))"

text \<open>
  \<^verbatim>\<open>with tempfile.TemporaryDirectory() as tmp_dir\<close>: a directory that did not exist is
  created, the body runs, and the directory is removed however the body ends. The body
  is given the directory's name.
\<close>

definition with_temporary_directory :: "externals \<Rightarrow> (string \<Rightarrow> step) \<Rightarrow> step" where
  "with_temporary_directory ext body w =
     (case mkdtemp ext of
        Inl e \<Rightarrow> (Some e, w)
      | Inr tmp_dir \<Rightarrow>
          if tmp_dir \<in> dirs w then (Some FileExistsError, w)
          else (case body tmp_dir (w\<lparr>dirs := insert tmp_dir (dirs w)\<rparr>) of
                  (r, w') \<Rightarrow> (r, rmtree tmp_dir w')))"

text \<open>
  \<^verbatim>\<open>go\<close>. The body of the \<^verbatim>\<open>with\<close> block never mentions \<^verbatim>\<open>tmp_dir\<close>, and nothing
  changes the working directory.
\<close>

definition go :: "externals \<Rightarrow> cval \<Rightarrow> step" where
  "go ext config w =
     (case cfg config ''main'' ''project_name'' of
        Inl e \<Rightarrow> (Some e, w)
      | Inr project_name \<Rightarrow>
     (case setenv ''WANDB_PROJECT'' project_name w of
        Inl e \<Rightarrow> (Some e, w)
      | Inr w1 \<Rightarrow>
     (case cfg config ''main'' ''experiment_name'' of
        Inl e \<Rightarrow> (Some e, w1)
      | Inr experiment_name \<Rightarrow>
     (case setenv ''WANDB_RUN_GROUP'' experiment_name w1 of
        Inl e \<Rightarrow> (Some e, w1)
      | Inr w2 \<Rightarrow>
     (case cfg config ''main'' ''steps'' of
        Inl e \<Rightarrow> (Some e, w2)
      | Inr steps_par \<Rightarrow>
     (case active_steps steps_par of
        Inl e \<Rightarrow> (Some e, w2)
      | Inr active \<Rightarrow>
          with_temporary_directory ext (\<lambda>tmp_dir. pipeline ext config active) w2))))))"

section \<open>Notions used to state the properties\<close>

text \<open>The six guarded blocks as a list: the name each block tests for, and what it runs.\<close>

definition pipeline_steps :: "externals \<Rightarrow> cval \<Rightarrow> (string \<times> step) list" where
  "pipeline_steps ext config =
     [(''download'', download ext config),
      (''basic_cleaning'', basic_cleaning ext config),
      (''data_check'', data_check ext config),
      (''data_split'', data_split ext config),
      (''train_random_forest'', train_random_forest ext config),
      (''test_regression_model'', test_regression_model ext config)]"

text \<open>Running a list of guarded blocks one after the other.\<close>

fun run_steps :: "string list \<Rightarrow> (string \<times> step) list \<Rightarrow> step" where
  "run_steps active [] w = (None, w)"
| "run_steps active ((name, f) # rest) w =
     (if name \<in> set active
      then (case f w of (None, w') \<Rightarrow> run_steps active rest w' | (Some e, w') \<Rightarrow> (Some e, w'))
      else run_steps active rest w)"

text \<open>The names whose guard holds, in the order of the blocks.\<close>

definition selected_steps :: "string list \<Rightarrow> string list" where
  "selected_steps active = filter (\<lambda>name. name \<in> set active) all_steps"

text \<open>The invocations a run has added to the log.\<close>

definition invoked :: "world \<Rightarrow> world \<Rightarrow> (string \<times> call) list" where
  "invoked w w' = drop (length (calls w)) (calls w')"

text \<open>
  A block makes at most one invocation: either it raises before invoking anything, or it
  appends one invocation to the log and ends as that invocation does.
\<close>

definition one_call :: "externals \<Rightarrow> string \<Rightarrow> step \<Rightarrow> bool" where
  "one_call ext name f =
     (\<forall>w. (fst (f w) \<noteq> None \<and> calls (snd (f w)) = calls w) \<or>
          (\<exists>c. calls (snd (f w)) = calls w @ [(name, c)] \<and>
               fst (f w) = invoke ext (calls w) c))"



text \<open>
  A log in which a failed invocation is the last one, and its exception is how the run ends;
  \<open>history\<close> is the log before the run.
\<close>

definition fail_fast_trace ::
  "externals \<Rightarrow> (string \<times> call) list \<Rightarrow> (string \<times> call) list \<Rightarrow> error option \<Rightarrow> bool" where
  "fail_fast_trace ext history tr r =
     (\<forall>pre n c post e. tr = pre @ (n, c) # post \<longrightarrow>
        invoke ext (history @ pre) c = Some e \<longrightarrow> post = [] \<and> r = Some e)"

text \<open>The list of active steps a configuration gives, empty when computing it raises.\<close>

definition active_of :: "cval \<Rightarrow> string list" where
  "active_of config =
     (case cfg config ''main'' ''steps'' of
        Inl e \<Rightarrow> []
      | Inr steps_par \<Rightarrow> (case active_steps steps_par of Inl e \<Rightarrow> [] | Inr active \<Rightarrow> active))"

text \<open>Two worlds that differ in the process environment at most.\<close>

definition same_but_environ :: "world \<Rightarrow> world \<Rightarrow> bool" where
  "same_but_environ w w' =
     (cwd w' = cwd w \<and> original_cwd w' = original_cwd w \<and> dirs w' = dirs w \<and>
      files w' = files w \<and> calls w' = calls w)"

section \<open>A concrete configuration, environment and world\<close>

definition example_config :: "string \<Rightarrow> cval" where
  "example_config steps_par =
     VDict
       [(''main'', VDict
           [(''components_repository'', VStr ''https://example.org/components''),
            (''project_name'', VStr ''nyc_airbnb''),
            (''experiment_name'', VStr ''development''),
            (''steps'', VStr steps_par)]),
        (''etl'', VDict
           [(''sample'', VStr ''data.csv''),
            (''min_price'', VInt 10),
            (''max_price'', VInt 1000)]),
        (''data_check'', VDict
           [(''kl_threshold'', VFloat (1 / 5)),
            (''min_price'', VInt 10),
            (''max_price'', VInt 1000)]),
        (''modeling'', VDict
           [(''test_size'', VFloat (1 / 5)),
            (''val_size'', VFloat (1 / 5)),
            (''random_seed'', VInt 42),
            (''stratify_by'', VStr ''neighbourhood_group''),
            (''max_tfidf_features'', VInt 5),
            (''random_forest'', VDict
               [(''n_estimators'', VInt 100),
                (''max_depth'', VInt 15)])])]"

text \<open>
  An environment in which the invocation made after \<open>n\<close> others fails when \<open>failing\<close>
  is \<open>Some n\<close>, and every invocation succeeds when it is \<open>None\<close>. Its \<open>json_dump\<close>
  writes the keys only: the driver does not look at what is written.
\<close>

definition example_externals :: "nat option \<Rightarrow> externals" where
  "example_externals failing =
     \<lparr>mkdtemp = Inr ''/tmp/tmpk3x9'',
      open_file = (\<lambda>p. None),
      json_dump = (\<lambda>kvs. (concat (map fst kvs), None)),
      format_value = (\<lambda>v. []),
      invoke = (\<lambda>done c. if Some (length done) = failing
                           then Some ExecutionException else None)\<rparr>"

definition example_world :: world where
  "example_world =
     \<lparr>environ = Map.empty, cwd = ''/work/outputs'', original_cwd = ''/work'',
      dirs = {''/tmp'', ''/work'', ''/work/outputs''}, files = Map.empty, calls = []\<rparr>"

text \<open>The invocations of the first two stages under this configuration, in this world.\<close>

definition example_download :: call where
  "example_download =
     SubprocessRun
       [VStr ''python'', VStr ''components/get_data/manual.py'',
        VStr ''--sample'', VStr ''data.csv'',
        VStr ''--artifact_name'', VStr ''sample.csv'',
        VStr ''--artifact_type'', VStr ''raw_data'',
        VStr ''--artifact_description'', VStr ''Raw file as downloaded'']"

definition example_basic_cleaning :: call where
  "example_basic_cleaning =
     MlflowRun ''/work/src/basic_cleaning'' ''main''
       [(''input_artifact'', VStr ''sample.csv:latest''),
        (''output_artifact'', VStr ''clean_sample.csv''),
        (''output_type'', VStr ''clean_sample''),
        (''output_description'', VStr ''Data with outliers and null values removed''),
        (''min_price'', VInt 10),
        (''max_price'', VInt 1000)]"

lemmas example_defs =
  example_config_def example_externals_def example_world_def example_download_def
  example_basic_cleaning_def

lemmas driver_defs =
  go_def cfg_def getitem_def items_def setenv_def active_steps_def
  with_temporary_directory_def rmtree_def pipeline_def seq_def when_active_def
  resolve_then_run_def run_call_def mlflow_call_def local_uri_def components_uri_def
  fstring_def path_join_def abspath_def invoked_def

lemmas stage_defs =
  download_def basic_cleaning_def data_check_def data_split_def train_random_forest_def
  test_regression_model_def write_rf_config_def

lemmas call_defs =
  download_call_def basic_cleaning_call_def data_check_call_def data_split_call_def
  train_random_forest_call_def test_regression_model_call_def

section \<open>Every block makes at most one invocation\<close>

lemma one_call_resolve_then_run: "one_call ext name (resolve_then_run ext name resolve)"
  by (auto simp: one_call_def resolve_then_run_def run_call_def split: sum.splits)

lemma calls_write_rf_config: "calls (snd (write_rf_config ext config w)) = calls w"
  by (simp add: write_rf_config_def Let_def split: option.splits sum.splits prod.splits)

lemma one_call_train_random_forest:
  "one_call ext ''train_random_forest'' (train_random_forest ext config)"
proof -
  have rtr: "one_call ext ''train_random_forest''
      (resolve_then_run ext ''train_random_forest'' (train_random_forest_call config))"
    by (rule one_call_resolve_then_run)
  show ?thesis
    unfolding one_call_def
  proof
    fix w
    obtain r1 w1 where w1: "write_rf_config ext config w = (r1, w1)"
      by (cases "write_rf_config ext config w")
    have c1: "calls w1 = calls w"
      using calls_write_rf_config [of ext config w] w1 by simp
    show "(fst (train_random_forest ext config w) \<noteq> None \<and>
           calls (snd (train_random_forest ext config w)) = calls w) \<or>
          (\<exists>c. calls (snd (train_random_forest ext config w)) =
                 calls w @ [(''train_random_forest'', c)] \<and>
               fst (train_random_forest ext config w) = invoke ext (calls w) c)"
    proof (cases r1)
      case (Some e)
      then show ?thesis
        using w1 c1 by (simp add: train_random_forest_def seq_def)
    next
      case None
      then show ?thesis
        using w1 c1 rtr [unfolded one_call_def, rule_format, of w1]
        by (simp add: train_random_forest_def seq_def)
    qed
  qed
qed

lemma all_one_call_pipeline_steps:
  "list_all (\<lambda>(name, f). one_call ext name f) (pipeline_steps ext config)"
  by (simp add: pipeline_steps_def download_def basic_cleaning_def data_check_def
      data_split_def test_regression_model_def one_call_resolve_then_run
      one_call_train_random_forest)

section \<open>The six blocks as a list\<close>

lemma run_steps_two:
  "run_steps active ((name, f) # x # rest) =
     seq (when_active (name \<in> set active) f) (run_steps active (x # rest))"
  by (rule ext) (simp add: seq_def when_active_def split: prod.splits option.splits)

lemma run_steps_one: "run_steps active [(name, f)] = when_active (name \<in> set active) f"
  by (rule ext) (simp add: when_active_def split: prod.splits option.splits)

lemma pipeline_run_steps:
  "pipeline ext config active = run_steps active (pipeline_steps ext config)"
  by (simp only: pipeline_def pipeline_steps_def run_steps_two run_steps_one)

lemma names_pipeline_steps: "map fst (pipeline_steps ext config) = all_steps"
  by (simp add: pipeline_steps_def all_steps_def)

section \<open>The log of a run\<close>

lemma fail_fast_trace_Nil: "fail_fast_trace ext history [] r"
  by (simp add: fail_fast_trace_def)

lemma fail_fast_trace_single: "fail_fast_trace ext history [(n, c)] (invoke ext history c)"
  by (auto simp: fail_fast_trace_def Cons_eq_append_conv)

lemma fail_fast_trace_Cons:
  assumes "invoke ext history c = None"
    and "fail_fast_trace ext (history @ [(n, c)]) tr r"
  shows "fail_fast_trace ext history ((n, c) # tr) r"
  unfolding fail_fast_trace_def
proof (intro allI impI)
  fix pre m d post e
  assume eq: "(n, c) # tr = pre @ (m, d) # post"
    and fails: "invoke ext (history @ pre) d = Some e"
  show "post = [] \<and> r = Some e"
  proof (cases pre)
    case Nil
    with eq fails assms(1) show ?thesis by simp
  next
    case (Cons x pre')
    with eq have "x = (n, c)" and "tr = pre' @ (m, d) # post" by simp_all
    with fails Cons assms(2) show ?thesis
      by (simp add: fail_fast_trace_def)
  qed
qed

lemma run_steps_trace:
  assumes "list_all (\<lambda>(name, f). one_call ext name f) steps"
  shows "\<exists>tr. calls (snd (run_steps active steps w)) = calls w @ tr \<and>
           prefix (map fst tr) (filter (\<lambda>n. n \<in> set active) (map fst steps)) \<and>
           (fst (run_steps active steps w) = None \<longrightarrow>
              map fst tr = filter (\<lambda>n. n \<in> set active) (map fst steps)) \<and>
           fail_fast_trace ext (calls w) tr (fst (run_steps active steps w))"
  using assms
proof (induction steps arbitrary: w)
  case Nil
  then show ?case by (simp add: fail_fast_trace_Nil)
next
  case (Cons step rest)
  obtain name f where step: "step = (name, f)" by (cases step)
  from Cons.prems step have one: "one_call ext name f"
    and rest: "list_all (\<lambda>(name, f). one_call ext name f) rest" by simp_all
  let ?goal = "\<exists>tr. calls (snd (run_steps active ((name, f) # rest) w)) = calls w @ tr \<and>
      prefix (map fst tr) (filter (\<lambda>n. n \<in> set active) (map fst ((name, f) # rest))) \<and>
      (fst (run_steps active ((name, f) # rest) w) = None \<longrightarrow>
         map fst tr = filter (\<lambda>n. n \<in> set active) (map fst ((name, f) # rest))) \<and>
      fail_fast_trace ext (calls w) tr (fst (run_steps active ((name, f) # rest) w))"
  have ?goal
  proof (cases "name \<in> set active")
    case False
    have run: "run_steps active ((name, f) # rest) w = run_steps active rest w"
      using False by simp
    have flt: "filter (\<lambda>n. n \<in> set active) (map fst ((name, f) # rest)) =
               filter (\<lambda>n. n \<in> set active) (map fst rest)"
      using False by simp
    show ?thesis
      unfolding run flt by (rule Cons.IH [OF rest])
  next
    case True
    have flt: "filter (\<lambda>n. n \<in> set active) (map fst ((name, f) # rest)) =
               name # filter (\<lambda>n. n \<in> set active) (map fst rest)"
      using True by simp
    obtain r1 w1 where fw: "f w = (r1, w1)" by (cases "f w")
    from one [unfolded one_call_def, rule_format, of w] fw
    consider (raised) "r1 \<noteq> None" "calls w1 = calls w"
      | (called) c where "calls w1 = calls w @ [(name, c)]" "r1 = invoke ext (calls w) c"
      by auto
    then show ?thesis
    proof cases
      case raised
      then obtain e where e: "r1 = Some e" by auto
      have run: "run_steps active ((name, f) # rest) w = (Some e, w1)"
        using e True fw by simp
      have "calls w1 = calls w @ [] \<and> prefix (map fst ([] :: (string \<times> call) list))
              (name # filter (\<lambda>n. n \<in> set active) (map fst rest)) \<and>
            (Some e = None \<longrightarrow> map fst ([] :: (string \<times> call) list) =
               name # filter (\<lambda>n. n \<in> set active) (map fst rest)) \<and>
            fail_fast_trace ext (calls w) [] (Some e)"
        using raised(2) by (simp add: fail_fast_trace_Nil)
      then show ?thesis
        unfolding run flt fst_conv snd_conv by (rule exI)
    next
      case called
      show ?thesis
      proof (cases r1)
        case (Some e)
        have run: "run_steps active ((name, f) # rest) w = (Some e, w1)"
          using Some True fw by simp
        have "fail_fast_trace ext (calls w) [(name, c)] (Some e)"
          using fail_fast_trace_single [of ext "calls w" name c] called(2) Some by simp
        then have "calls w1 = calls w @ [(name, c)] \<and> prefix (map fst [(name, c)])
              (name # filter (\<lambda>n. n \<in> set active) (map fst rest)) \<and>
            (Some e = None \<longrightarrow> map fst [(name, c)] =
               name # filter (\<lambda>n. n \<in> set active) (map fst rest)) \<and>
            fail_fast_trace ext (calls w) [(name, c)] (Some e)"
          using called(1) by simp
        then show ?thesis
          unfolding run flt fst_conv snd_conv by (rule exI)
      next
        case None
        from Cons.IH [OF rest, of w1] obtain tr where
          ih: "calls (snd (run_steps active rest w1)) = calls w1 @ tr \<and>
            prefix (map fst tr) (filter (\<lambda>n. n \<in> set active) (map fst rest)) \<and>
            (fst (run_steps active rest w1) = None \<longrightarrow>
               map fst tr = filter (\<lambda>n. n \<in> set active) (map fst rest)) \<and>
            fail_fast_trace ext (calls w1) tr (fst (run_steps active rest w1))" ..
        note tr = ih [THEN conjunct1] ih [THEN conjunct2, THEN conjunct1]
          ih [THEN conjunct2, THEN conjunct2, THEN conjunct1]
          ih [THEN conjunct2, THEN conjunct2, THEN conjunct2]
        have run: "run_steps active ((name, f) # rest) w = run_steps active rest w1"
          using None True fw by simp
        have ff: "fail_fast_trace ext (calls w) ((name, c) # tr)
                    (fst (run_steps active rest w1))"
          using fail_fast_trace_Cons [of ext "calls w" c name tr] None called tr(4) by simp
        have "calls (snd (run_steps active rest w1)) = calls w @ (name, c) # tr \<and>
            prefix (map fst ((name, c) # tr))
              (name # filter (\<lambda>n. n \<in> set active) (map fst rest)) \<and>
            (fst (run_steps active rest w1) = None \<longrightarrow> map fst ((name, c) # tr) =
               name # filter (\<lambda>n. n \<in> set active) (map fst rest)) \<and>
            fail_fast_trace ext (calls w) ((name, c) # tr) (fst (run_steps active rest w1))"
          using tr(1-3) ff called(1) by simp
        then show ?thesis
          unfolding run flt by (rule exI)
      qed
    qed
  qed
  then show ?case
    unfolding step .
qed

lemma calls_rmtree: "calls (rmtree d w) = calls w"
  by (simp add: rmtree_def)

lemma pipeline_trace:
  "\<exists>tr. calls (snd (pipeline ext config active w)) = calls w @ tr \<and>
        prefix (map fst tr) (selected_steps active) \<and>
        (fst (pipeline ext config active w) = None \<longrightarrow> map fst tr = selected_steps active) \<and>
        fail_fast_trace ext (calls w) tr (fst (pipeline ext config active w))"
  using run_steps_trace [OF all_one_call_pipeline_steps [of ext config], of active w]
  unfolding pipeline_run_steps names_pipeline_steps selected_steps_def .

section \<open>The driver around the pipeline\<close>

lemma same_but_environ_refl: "same_but_environ w w"
  by (simp add: same_but_environ_def)

lemma same_but_environ_trans:
  "same_but_environ w w1 \<Longrightarrow> same_but_environ w1 w2 \<Longrightarrow> same_but_environ w w2"
  by (simp add: same_but_environ_def)

lemma setenv_same: "setenv name v w = Inr w1 \<Longrightarrow> same_but_environ w w1"
  by (cases v) (auto simp: setenv_def same_but_environ_def)

lemma go_run:
  "(\<exists>e w0. go ext config w = (Some e, w0) \<and> same_but_environ w w0) \<or>
   (\<exists>tmp w2 r w3. mkdtemp ext = Inr tmp \<and> tmp \<notin> dirs w \<and> same_but_environ w w2 \<and>
      pipeline ext config (active_of config) (w2\<lparr>dirs := insert tmp (dirs w2)\<rparr>) = (r, w3) \<and>
      go ext config w = (r, rmtree tmp w3))"
proof (cases "cfg config ''main'' ''project_name''")
  case (Inl e)
  then show ?thesis by (simp add: go_def same_but_environ_refl)
next
  case pn: (Inr project_name)
  show ?thesis
  proof (cases "setenv ''WANDB_PROJECT'' project_name w")
    case (Inl e)
    with pn show ?thesis by (simp add: go_def same_but_environ_refl)
  next
    case w1: (Inr w1)
    have s1: "same_but_environ w w1" using w1 by (rule setenv_same)
    show ?thesis
    proof (cases "cfg config ''main'' ''experiment_name''")
      case (Inl e)
      with pn w1 s1 show ?thesis by (simp add: go_def)
    next
      case en: (Inr experiment_name)
      show ?thesis
      proof (cases "setenv ''WANDB_RUN_GROUP'' experiment_name w1")
        case (Inl e)
        with pn w1 s1 en show ?thesis by (simp add: go_def)
      next
        case w2: (Inr w2)
        have s2: "same_but_environ w w2"
          using s1 setenv_same [OF w2] by (rule same_but_environ_trans)
        show ?thesis
        proof (cases "cfg config ''main'' ''steps''")
          case (Inl e)
          with pn w1 en w2 s2 show ?thesis by (simp add: go_def)
        next
          case sp: (Inr steps_par)
          show ?thesis
          proof (cases "active_steps steps_par")
            case (Inl e)
            with pn w1 en w2 s2 sp show ?thesis by (simp add: go_def)
          next
            case act: (Inr active)
            have ao: "active_of config = active"
              using sp act by (simp add: active_of_def)
            have go: "go ext config w =
                with_temporary_directory ext (\<lambda>tmp_dir. pipeline ext config active) w2"
              using pn w1 en w2 sp act by (simp add: go_def)
            show ?thesis
            proof (cases "mkdtemp ext")
              case (Inl e)
              with go s2 show ?thesis by (simp add: with_temporary_directory_def)
            next
              case tmp: (Inr tmp)
              show ?thesis
              proof (cases "tmp \<in> dirs w2")
                case True
                with go s2 tmp show ?thesis by (simp add: with_temporary_directory_def)
              next
                case False
                obtain r w3 where
                  p: "pipeline ext config active (w2\<lparr>dirs := insert tmp (dirs w2)\<rparr>) = (r, w3)"
                  by (cases "pipeline ext config active (w2\<lparr>dirs := insert tmp (dirs w2)\<rparr>)")
                have "go ext config w = (r, rmtree tmp w3)"
                  using go tmp False p by (simp add: with_temporary_directory_def)
                moreover have "tmp \<notin> dirs w"
                  using False s2 by (simp add: same_but_environ_def)
                ultimately show ?thesis
                  using tmp s2 p ao by blast
              qed
            qed
          qed
        qed
      qed
    qed
  qed
qed

lemma go_trace:
  "\<exists>tr. calls (snd (go ext config w)) = calls w @ tr \<and>
        prefix (map fst tr) (selected_steps (active_of config)) \<and>
        (fst (go ext config w) = None \<longrightarrow> map fst tr = selected_steps (active_of config)) \<and>
        fail_fast_trace ext (calls w) tr (fst (go ext config w))"
  using go_run [of ext config w]
proof (elim disjE exE conjE)
  fix e w0
  assume go: "go ext config w = (Some e, w0)" and same: "same_but_environ w w0"
  have "calls w0 = calls w @ [] \<and>
        prefix (map fst ([] :: (string \<times> call) list)) (selected_steps (active_of config)) \<and>
        (Some e = None \<longrightarrow>
           map fst ([] :: (string \<times> call) list) = selected_steps (active_of config)) \<and>
        fail_fast_trace ext (calls w) [] (Some e)"
    using same by (simp add: same_but_environ_def fail_fast_trace_Nil)
  then show ?thesis
    unfolding go fst_conv snd_conv by (rule exI)
next
  fix tmp w2 r w3
  assume same: "same_but_environ w w2"
    and p: "pipeline ext config (active_of config) (w2\<lparr>dirs := insert tmp (dirs w2)\<rparr>) = (r, w3)"
    and go: "go ext config w = (r, rmtree tmp w3)"
  have c2: "calls (w2\<lparr>dirs := insert tmp (dirs w2)\<rparr>) = calls w"
    using same by (simp add: same_but_environ_def)
  show ?thesis
    using pipeline_trace [of ext config "active_of config" "w2\<lparr>dirs := insert tmp (dirs w2)\<rparr>"]
    unfolding go p fst_conv snd_conv calls_rmtree c2 .
qed

lemma go_invoked:
  shows go_calls: "calls (snd (go ext config w)) = calls w @ invoked w (snd (go ext config w))"
    and go_invoked_prefix:
      "prefix (map fst (invoked w (snd (go ext config w)))) (selected_steps (active_of config))"
    and go_invoked_complete:
      "fst (go ext config w) = None \<Longrightarrow>
         map fst (invoked w (snd (go ext config w))) = selected_steps (active_of config)"
    and go_invoked_fail_fast:
      "fail_fast_trace ext (calls w) (invoked w (snd (go ext config w))) (fst (go ext config w))"
proof -
  from go_trace [of ext config w] obtain tr where
    tr: "calls (snd (go ext config w)) = calls w @ tr \<and>
        prefix (map fst tr) (selected_steps (active_of config)) \<and>
        (fst (go ext config w) = None \<longrightarrow> map fst tr = selected_steps (active_of config)) \<and>
        fail_fast_trace ext (calls w) tr (fst (go ext config w))" ..
  have inv: "invoked w (snd (go ext config w)) = tr"
    using tr by (simp add: invoked_def)
  show "calls (snd (go ext config w)) = calls w @ invoked w (snd (go ext config w))"
    unfolding inv using tr by (rule conjunct1)
  show "prefix (map fst (invoked w (snd (go ext config w)))) (selected_steps (active_of config))"
    unfolding inv using tr by simp
  show "fst (go ext config w) = None \<Longrightarrow>
         map fst (invoked w (snd (go ext config w))) = selected_steps (active_of config)"
    unfolding inv using tr by simp
  show "fail_fast_trace ext (calls w) (invoked w (snd (go ext config w))) (fst (go ext config w))"
    unfolding inv using tr by simp
qed

lemma distinct_all_steps: "distinct all_steps"
  by (simp add: all_steps_def)

lemma distinct_selected_steps: "distinct (selected_steps active)"
  by (simp add: selected_steps_def distinct_all_steps)

lemma prefix_distinct: "prefix xs ys \<Longrightarrow> distinct ys \<Longrightarrow> distinct xs"
  by (auto simp: prefix_def)

section \<open>The working directory\<close>








lemma rmtree_removes: "d \<notin> dirs (rmtree d w)"
  by (simp add: rmtree_def)

section \<open>What the run depends on\<close>

lemma pipeline_cong:
  "set active' \<inter> set all_steps = set active \<inter> set all_steps \<Longrightarrow>
   pipeline ext config active' = pipeline ext config active"
proof -
  assume eq: "set active' \<inter> set all_steps = set active \<inter> set all_steps"
  have mem: "n \<in> set active' \<longleftrightarrow> n \<in> set active" if "n \<in> set all_steps" for n
    using eq that by blast
  have "''download'' \<in> set active' \<longleftrightarrow> ''download'' \<in> set active"
    and "''basic_cleaning'' \<in> set active' \<longleftrightarrow> ''basic_cleaning'' \<in> set active"
    and "''data_check'' \<in> set active' \<longleftrightarrow> ''data_check'' \<in> set active"
    and "''data_split'' \<in> set active' \<longleftrightarrow> ''data_split'' \<in> set active"
    and "''train_random_forest'' \<in> set active' \<longleftrightarrow> ''train_random_forest'' \<in> set active"
    and "''test_regression_model'' \<in> set active' \<longleftrightarrow> ''test_regression_model'' \<in> set active"
    by (rule mem, simp add: all_steps_def)+
  then show ?thesis
    unfolding pipeline_def by (simp only:)
qed

lemma selected_steps_cong:
  "set active' \<inter> set all_steps = set active \<inter> set all_steps \<Longrightarrow>
   selected_steps active' = selected_steps active"
  unfolding selected_steps_def by (rule filter_cong) auto

lemma go_invoked_pair:
  assumes "go ext config w = (r, w')"
  shows "prefix (map fst (invoked w w')) (selected_steps (active_of config))"
    and "r = None \<Longrightarrow> map fst (invoked w w') = selected_steps (active_of config)"
  using go_invoked_prefix [of w ext config] go_invoked_complete [of ext config w] assms
  by simp_all

lemma active_of_str:
  "cfg config ''main'' ''steps'' = Inr (VStr d) \<Longrightarrow>
   active_of config = (if d = ''all'' then all_steps else str_split CHR '','' d)"
  by (simp add: active_of_def active_steps_def)

lemma selected_all_steps: "selected_steps all_steps = all_steps"
  by (simp add: selected_steps_def)

lemma all_not_a_step: "''all'' \<notin> set all_steps"
  by (simp add: all_steps_def)

lemma selected_steps_removeAll_all:
  "selected_steps (removeAll ''all'' active) = selected_steps active"
  by (rule selected_steps_cong) (use all_not_a_step in auto)

lemma set_selected_steps: "set (selected_steps active) = set active \<inter> set all_steps"
  by (auto simp: selected_steps_def)

section \<open>The example run\<close>

lemma run_steps_all_ok:
  "list_all (\<lambda>(name, f). \<forall>w. fst (f w) = None) steps \<Longrightarrow> fst (run_steps active steps w) = None"
proof (induction steps arbitrary: w)
  case Nil
  then show ?case by simp
next
  case (Cons step rest)
  obtain name f where step: "step = (name, f)" by (cases step)
  obtain r w1 where fw: "f w = (r, w1)" by (cases "f w")
  from Cons.prems step have "fst (f w) = None"
    and rest: "list_all (\<lambda>(name, f). \<forall>w. fst (f w) = None) rest" by simp_all
  with fw have r: "r = None" by simp
  show ?case
    using Cons.IH [OF rest] fw r unfolding step by simp
qed

lemma example_cfg:
  "cfg (example_config d) ''main'' ''project_name'' = Inr (VStr ''nyc_airbnb'')"
  "cfg (example_config d) ''main'' ''experiment_name'' = Inr (VStr ''development'')"
  "cfg (example_config d) ''main'' ''steps'' = Inr (VStr d)"
  "cfg (example_config d) ''main'' ''components_repository'' =
     Inr (VStr ''https://example.org/components'')"
  "cfg (example_config d) ''etl'' ''sample'' = Inr (VStr ''data.csv'')"
  "cfg (example_config d) ''etl'' ''min_price'' = Inr (VInt 10)"
  "cfg (example_config d) ''etl'' ''max_price'' = Inr (VInt 1000)"
  "cfg (example_config d) ''data_check'' ''kl_threshold'' = Inr (VFloat (1 / 5))"
  "cfg (example_config d) ''data_check'' ''min_price'' = Inr (VInt 10)"
  "cfg (example_config d) ''data_check'' ''max_price'' = Inr (VInt 1000)"
  "cfg (example_config d) ''modeling'' ''test_size'' = Inr (VFloat (1 / 5))"
  "cfg (example_config d) ''modeling'' ''val_size'' = Inr (VFloat (1 / 5))"
  "cfg (example_config d) ''modeling'' ''random_seed'' = Inr (VInt 42)"
  "cfg (example_config d) ''modeling'' ''stratify_by'' = Inr (VStr ''neighbourhood_group'')"
  "cfg (example_config d) ''modeling'' ''max_tfidf_features'' = Inr (VInt 5)"
  "cfg (example_config d) ''modeling'' ''random_forest'' =
     Inr (VDict [(''n_estimators'', VInt 100), (''max_depth'', VInt 15)])"
  by (simp_all add: example_config_def cfg_def getitem_def)

lemma example_stages_ok:
  "list_all (\<lambda>(name, f). \<forall>w. fst (f w) = None)
     (pipeline_steps (example_externals None) (example_config d))"
  by (simp add: pipeline_steps_def stage_defs call_defs example_cfg example_externals_def
      resolve_then_run_def run_call_def mlflow_call_def local_uri_def components_uri_def
      seq_def items_def Let_def)

lemma example_mkdtemp: "mkdtemp (example_externals failing) = Inr ''/tmp/tmpk3x9''"
  by (simp add: example_externals_def)

lemma example_go_ok:
  "fst (go (example_externals None) (example_config d) example_world) = None"
proof -
  have p: "fst (pipeline (example_externals None) (example_config d) active w) = None"
    for active w
    unfolding pipeline_run_steps using example_stages_ok by (rule run_steps_all_ok)
  have "\<exists>active. active_steps (VStr d) = Inr active"
    by (simp add: active_steps_def)
  then obtain active where "active_steps (VStr d) = Inr active" ..
  then show ?thesis
    by (simp add: go_def example_cfg setenv_def with_temporary_directory_def
        example_mkdtemp example_world_def p case_prod_beta)
qed

lemma example_download_foo:
  "invoked example_world
     (snd (go (example_externals None) (example_config ''download,foo'') example_world)) =
   [(''download'', example_download)]"
  by (simp add: example_defs driver_defs stage_defs call_defs)

section \<open>The hyperparameter file\<close>

text \<open>
  When the training block invokes its stage, the file \<^verbatim>\<open>rf_config.json\<close> under the
  current working directory holds what \<^verbatim>\<open>json.dump\<close> wrote for the items of
  \<^verbatim>\<open>modeling.random_forest\<close>, and the stage is given that path as \<open>rf_config\<close>.
\<close>

lemma write_rf_config_ok:
  assumes "write_rf_config ext config w = (None, w1)"
  shows "\<exists>rf kvs. cfg config ''modeling'' ''random_forest'' = Inr rf \<and> items rf = Inr kvs \<and>
           snd (json_dump ext kvs) = None \<and>
           files w1 (abspath w ''rf_config.json'') = Some (fst (json_dump ext kvs)) \<and>
           calls w1 = calls w \<and> cwd w1 = cwd w \<and> original_cwd w1 = original_cwd w"
  using assms
  by (auto simp: write_rf_config_def Let_def split: option.splits sum.splits prod.splits)

lemma dict_literal_map_of:
  "dict_literal entries = Inr kvs \<Longrightarrow> map_of entries k = Some (Inr v) \<Longrightarrow>
   map_of kvs k = Some v"
  by (induction entries arbitrary: kvs rule: dict_literal.induct)
    (auto split: sum.splits if_splits)

lemma train_random_forest_call_rf_config:
  assumes "train_random_forest_call config w = Inr c"
  shows "\<exists>ps. c = MlflowRun (path_join (path_join (original_cwd w) ''src'')
                         ''train_random_forest'') ''main'' ps \<and>
              map_of ps ''rf_config'' = Some (VStr (abspath w ''rf_config.json''))"
proof -
  let ?entries =
    "[(''trainval_artifact'', Inr (VStr ''trainval_data.csv:latest'')),
      (''val_size'', cfg config ''modeling'' ''val_size''),
      (''random_seed'', cfg config ''modeling'' ''random_seed''),
      (''stratify_by'', cfg config ''modeling'' ''stratify_by''),
      (''rf_config'', Inr (VStr (abspath w ''rf_config.json''))),
      (''max_tfidf_features'', cfg config ''modeling'' ''max_tfidf_features''),
      (''output_artifact'', Inr (VStr ''random_forest_export''))]"
  from assms obtain ps where ps: "dict_literal ?entries = Inr ps"
    and c: "c = MlflowRun (path_join (path_join (original_cwd w) ''src'')
                  ''train_random_forest'') ''main'' ps"
    unfolding train_random_forest_call_def mlflow_call_def local_uri_def
    by (cases "dict_literal ?entries") simp_all
  have "map_of ?entries ''rf_config'' = Some (Inr (VStr (abspath w ''rf_config.json'')))"
    by simp
  with ps have "map_of ps ''rf_config'' = Some (VStr (abspath w ''rf_config.json''))"
    by (rule dict_literal_map_of)
  with c show ?thesis
    by blast
qed

lemma training_is_given_the_file_written:
  assumes "train_random_forest ext config w = (r, w')" and "calls w' \<noteq> calls w"
  shows "\<exists>rf kvs ps.
           cfg config ''modeling'' ''random_forest'' = Inr rf \<and> items rf = Inr kvs \<and>
           files w' (abspath w ''rf_config.json'') = Some (fst (json_dump ext kvs)) \<and>
           calls w' = calls w @
             [(''train_random_forest'',
               MlflowRun (path_join (path_join (original_cwd w) ''src'')
                            ''train_random_forest'') ''main'' ps)] \<and>
           map_of ps ''rf_config'' = Some (VStr (abspath w ''rf_config.json''))"
proof -
  obtain r1 w1 where w1: "write_rf_config ext config w = (r1, w1)"
    by (cases "write_rf_config ext config w")
  have c1: "calls w1 = calls w"
    using calls_write_rf_config [of ext config w] w1 by simp
  show ?thesis
  proof (cases r1)
    case (Some e)
    with w1 assms c1 show ?thesis
      by (simp add: train_random_forest_def seq_def)
  next
    case None
    from write_rf_config_ok [OF w1 [unfolded None]] obtain rf kvs where
      rf: "cfg config ''modeling'' ''random_forest'' = Inr rf" "items rf = Inr kvs"
        "files w1 (abspath w ''rf_config.json'') = Some (fst (json_dump ext kvs))"
        "cwd w1 = cwd w" "original_cwd w1 = original_cwd w"
      by blast
    have run: "resolve_then_run ext ''train_random_forest'' (train_random_forest_call config) w1 =
        (r, w')"
      using assms(1) w1 None by (simp add: train_random_forest_def seq_def)
    show ?thesis
    proof (cases "train_random_forest_call config w1")
      case (Inl e)
      with run c1 assms(2) show ?thesis
        by (simp add: resolve_then_run_def)
    next
      case (Inr c)
      from train_random_forest_call_rf_config [OF Inr] obtain ps where
        ps: "c = MlflowRun (path_join (path_join (original_cwd w1) ''src'')
                  ''train_random_forest'') ''main'' ps"
          "map_of ps ''rf_config'' = Some (VStr (abspath w1 ''rf_config.json''))"
        by blast
      have w': "w' = w1\<lparr>calls := calls w1 @ [(''train_random_forest'', c)]\<rparr>"
        using run Inr by (simp add: resolve_then_run_def run_call_def)
      have "abspath w1 = abspath w"
        using rf(4) by (simp add: abspath_def fun_eq_iff)
      with ps rf w' c1 show ?thesis
        by simp
    qed
  qed
qed

section \<open>The claims\<close>

text \<open>
  C1. Whatever the configuration and the stages selected: when an invocation raises, it is
  the last entry of the log, so that no later stage is invoked and the failed stage is not
  invoked again, and the run ends with the exception of that invocation. The history the
  environment sees at that invocation is the log so far.
\<close>

theorem failed_invocation_ends_the_run:
  assumes "go ext config w = (r, w')"
    and "invoked w w' = before @ (name, c) # after"
    and "invoke ext (calls w @ before) c = Some e"
  shows "after = [] \<and> r = Some e"
proof -
  have "fail_fast_trace ext (calls w) (invoked w w') r"
    using go_invoked_fail_fast [of ext w config] assms(1) by simp
  then show ?thesis
    unfolding fail_fast_trace_def using assms(2,3) by blast
qed

text \<open>
  With the three stages \<open>download\<close>, \<open>basic_cleaning\<close> and \<open>data_check\<close>
  selected and the second invocation failing, the log holds the first two and the run
  ends with the exception of \<open>basic_cleaning\<close>.
\<close>

theorem failed_invocation_ends_the_run_witness:
  "go (example_externals (Some 1)) (example_config ''download,basic_cleaning,data_check'')
      example_world =
     (fst (go (example_externals (Some 1))
             (example_config ''download,basic_cleaning,data_check'') example_world),
      snd (go (example_externals (Some 1))
             (example_config ''download,basic_cleaning,data_check'') example_world)) \<and>
   invoked example_world
     (snd (go (example_externals (Some 1))
             (example_config ''download,basic_cleaning,data_check'') example_world)) =
     [(''download'', example_download)] @ (''basic_cleaning'', example_basic_cleaning) # [] \<and>
   invoke (example_externals (Some 1)) (calls example_world @ [(''download'', example_download)])
     example_basic_cleaning = Some ExecutionException \<and>
   ''data_check'' \<in> set (active_of (example_config ''download,basic_cleaning,data_check'')) \<and>
   ([] = ([] :: (string \<times> call) list) \<and>
    fst (go (example_externals (Some 1))
           (example_config ''download,basic_cleaning,data_check'') example_world) =
      Some ExecutionException)"
proof -
  let ?go = "go (example_externals (Some 1))
      (example_config ''download,basic_cleaning,data_check'') example_world"
  have pair: "?go = (fst ?go, snd ?go)"
    by simp
  have log: "invoked example_world (snd ?go) =
      [(''download'', example_download)] @ (''basic_cleaning'', example_basic_cleaning) # []"
    by (simp add: example_defs driver_defs stage_defs call_defs)
  have failed: "invoke (example_externals (Some 1))
      (calls example_world @ [(''download'', example_download)]) example_basic_cleaning =
      Some ExecutionException"
    by (simp add: example_defs)
  have selected:
    "''data_check'' \<in> set (active_of (example_config ''download,basic_cleaning,data_check''))"
    by (simp add: active_of_def example_defs cfg_def getitem_def active_steps_def)
  from failed_invocation_ends_the_run [OF pair log failed] pair log failed selected show ?thesis
    by blast
qed

text \<open>
  C5. The directory that \<^verbatim>\<open>tempfile.TemporaryDirectory()\<close> hands out does not exist
  when \<^verbatim>\<open>go\<close> is left, whether the stages all succeed, one of them fails, or anything
  else raises: this holds for the pipeline and for any other body of the \<^verbatim>\<open>with\<close>
  block. The directory is new, as the operating system guarantees.
\<close>

theorem temporary_directory_removed:
  assumes "mkdtemp ext = Inr tmp_dir" and "tmp_dir \<notin> dirs w"
  shows "tmp_dir \<notin> dirs (snd (go ext config w)) \<and>
         tmp_dir \<notin> dirs (snd (with_temporary_directory ext body w))"
proof
  from go_run [of ext config w]
  show "tmp_dir \<notin> dirs (snd (go ext config w))"
  proof (elim disjE exE conjE)
    fix e w0
    assume "go ext config w = (Some e, w0)" and "same_but_environ w w0"
    with assms(2) show ?thesis by (simp add: same_but_environ_def)
  next
    fix tmp w2 r w3
    assume "mkdtemp ext = Inr tmp" and "go ext config w = (r, rmtree tmp w3)"
    with assms(1) show ?thesis by (simp add: rmtree_removes)
  qed
  show "tmp_dir \<notin> dirs (snd (with_temporary_directory ext body w))"
    using assms by (simp add: with_temporary_directory_def rmtree_removes split: prod.splits)
qed

text \<open>
  A run of all stages whose first invocation fails, and a body that raises at once: the
  directory is gone after both.
\<close>

theorem temporary_directory_removed_witness:
  "mkdtemp (example_externals (Some 0)) = Inr ''/tmp/tmpk3x9'' \<and>
   ''/tmp/tmpk3x9'' \<notin> dirs example_world \<and>
   ''/tmp/tmpk3x9'' \<notin>
     dirs (snd (go (example_externals (Some 0)) (example_config ''all'') example_world)) \<and>
   ''/tmp/tmpk3x9'' \<notin>
     dirs (snd (with_temporary_directory (example_externals (Some 0))
                  (\<lambda>tmp_dir w. (Some OSError, w)) example_world))"
proof -
  have made: "mkdtemp (example_externals (Some 0)) = Inr ''/tmp/tmpk3x9''"
    by (simp add: example_defs)
  have fresh: "''/tmp/tmpk3x9'' \<notin> dirs example_world"
    by (simp add: example_defs)
  from temporary_directory_removed [OF made fresh] made fresh show ?thesis
    by blast
qed


text \<open>
  C10. In every run the names in the log are pairwise distinct, so no stage is invoked
  twice; and a list of active steps with repetitions runs as the list without them does.
\<close>

theorem each_stage_invoked_at_most_once:
  "distinct (map fst (invoked w (snd (go ext config w)))) \<and>
   pipeline ext config (remdups active) = pipeline ext config active"
proof
  show "distinct (map fst (invoked w (snd (go ext config w))))"
    using go_invoked_prefix [of w ext config] distinct_selected_steps
    by (rule prefix_distinct)
  show "pipeline ext config (remdups active) = pipeline ext config active"
    by (rule pipeline_cong) simp
qed

text \<open>The directive \<^verbatim>\<open>download,download\<close> invokes \<open>download\<close> once.\<close>

lemma download_named_twice:
  "map fst (invoked example_world
      (snd (go (example_externals None) (example_config ''download,download'') example_world))) =
   [''download'']"
  by (simp add: example_defs driver_defs stage_defs call_defs)

text \<open>
  C3. When \<^verbatim>\<open>main.steps\<close> is \<^verbatim>\<open>all\<close>, the active steps are the whole list
  \<^verbatim>\<open>_steps\<close>; the stages invoked are \<open>download\<close>, \<open>basic_cleaning\<close>,
  \<open>data_check\<close>, \<open>data_split\<close>, \<open>train_random_forest\<close>,
  \<open>test_regression_model\<close> in this order: all six when the run ends normally, and
  the first ones of them up to the point where it fails otherwise.
\<close>

theorem all_selects_every_stage:
  assumes "cfg config ''main'' ''steps'' = Inr (VStr ''all'')"
    and "go ext config w = (r, w')"
  shows "active_steps (VStr ''all'') = Inr all_steps \<and>
         active_of config = all_steps \<and>
         prefix (map fst (invoked w w'))
           [''download'', ''basic_cleaning'', ''data_check'', ''data_split'',
            ''train_random_forest'', ''test_regression_model''] \<and>
         (r = None \<longrightarrow>
            map fst (invoked w w') =
              [''download'', ''basic_cleaning'', ''data_check'', ''data_split'',
               ''train_random_forest'', ''test_regression_model''])"
proof -
  have act: "active_of config = all_steps"
    using active_of_str [OF assms(1)] by simp
  have sel: "selected_steps (active_of config) =
      [''download'', ''basic_cleaning'', ''data_check'', ''data_split'',
       ''train_random_forest'', ''test_regression_model'']"
    unfolding act selected_all_steps by (simp add: all_steps_def)
  show ?thesis
    using go_invoked_pair [OF assms(2)] act unfolding sel
    by (simp add: active_steps_def)
qed

text \<open>The example configuration with \<^verbatim>\<open>all\<close>, every invocation succeeding.\<close>

theorem all_selects_every_stage_witness:
  "cfg (example_config ''all'') ''main'' ''steps'' = Inr (VStr ''all'') \<and>
   fst (go (example_externals None) (example_config ''all'') example_world) = None \<and>
   map fst (invoked example_world
              (snd (go (example_externals None) (example_config ''all'') example_world))) =
     [''download'', ''basic_cleaning'', ''data_check'', ''data_split'',
      ''train_random_forest'', ''test_regression_model'']"
proof -
  let ?go = "go (example_externals None) (example_config ''all'') example_world"
  have steps: "cfg (example_config ''all'') ''main'' ''steps'' = Inr (VStr ''all'')"
    by (rule example_cfg)
  have pair: "?go = (fst ?go, snd ?go)"
    by simp
  have ok: "fst ?go = None"
    by (rule example_go_ok)
  from all_selects_every_stage [OF steps pair] steps ok show ?thesis
    by blast
qed

text \<open>
  C4. For a directive other than \<^verbatim>\<open>all\<close> whose names are all stages: the stages
  invoked are the canonical list filtered by membership in the directive, hence in
  canonical order; a run that ends normally has invoked exactly the stages named; and
  any list with the same names, in whatever order, runs as the same pipeline.
\<close>

theorem subset_runs_in_canonical_order:
  assumes "cfg config ''main'' ''steps'' = Inr (VStr d)"
    and "d \<noteq> ''all''"
    and "set (str_split CHR '','' d) \<subseteq> set all_steps"
    and "go ext config w = (r, w')"
  shows "prefix (map fst (invoked w w'))
           (filter (\<lambda>name. name \<in> set (str_split CHR '','' d)) all_steps) \<and>
         (r = None \<longrightarrow>
            map fst (invoked w w') =
              filter (\<lambda>name. name \<in> set (str_split CHR '','' d)) all_steps \<and>
            set (map fst (invoked w w')) = set (str_split CHR '','' d)) \<and>
         (\<forall>active. set active = set (str_split CHR '','' d) \<longrightarrow>
            pipeline ext config active = pipeline ext config (str_split CHR '','' d))"
proof -
  have act: "active_of config = str_split CHR '','' d"
    using active_of_str [OF assms(1)] assms(2) by simp
  have named: "set (selected_steps (str_split CHR '','' d)) = set (str_split CHR '','' d)"
    using assms(3) unfolding set_selected_steps by blast
  have order: "pipeline ext config active = pipeline ext config (str_split CHR '','' d)"
    if "set active = set (str_split CHR '','' d)" for active
    using that by (intro pipeline_cong) simp
  have log: "prefix (map fst (invoked w w'))
        (filter (\<lambda>name. name \<in> set (str_split CHR '','' d)) all_steps) \<and>
      (r = None \<longrightarrow>
         map fst (invoked w w') =
           filter (\<lambda>name. name \<in> set (str_split CHR '','' d)) all_steps \<and>
         set (map fst (invoked w w')) = set (str_split CHR '','' d))"
    using go_invoked_pair [OF assms(4)] named
    unfolding act selected_steps_def by simp
  from order have "\<forall>active. set active = set (str_split CHR '','' d) \<longrightarrow>
      pipeline ext config active = pipeline ext config (str_split CHR '','' d)"
    by blast
  with log show ?thesis
    by (intro conjI) (erule conjunct1, erule conjunct2, assumption)
qed

text \<open>
  The directive \<^verbatim>\<open>data_split,download\<close> invokes \<open>download\<close> first and
  \<open>data_split\<close> second.
\<close>

theorem subset_runs_in_canonical_order_witness:
  "cfg (example_config ''data_split,download'') ''main'' ''steps'' =
     Inr (VStr ''data_split,download'') \<and>
   ''data_split,download'' \<noteq> ''all'' \<and>
   set (str_split CHR '','' ''data_split,download'') \<subseteq> set all_steps \<and>
   str_split CHR '','' ''data_split,download'' = [''data_split'', ''download''] \<and>
   fst (go (example_externals None) (example_config ''data_split,download'') example_world) =
     None \<and>
   map fst (invoked example_world
     (snd (go (example_externals None) (example_config ''data_split,download'')
             example_world))) =
     [''download'', ''data_split'']"
proof -
  let ?go = "go (example_externals None) (example_config ''data_split,download'') example_world"
  have steps: "cfg (example_config ''data_split,download'') ''main'' ''steps'' =
      Inr (VStr ''data_split,download'')"
    by (rule example_cfg)
  have not_all: "''data_split,download'' \<noteq> ''all''"
    by simp
  have split: "str_split CHR '','' ''data_split,download'' = [''data_split'', ''download'']"
    by simp
  have valid: "set (str_split CHR '','' ''data_split,download'') \<subseteq> set all_steps"
    unfolding split by (simp add: all_steps_def)
  have pair: "?go = (fst ?go, snd ?go)"
    by simp
  have ok: "fst ?go = None"
    by (rule example_go_ok)
  have "filter (\<lambda>name. name \<in> set (str_split CHR '','' ''data_split,download'')) all_steps =
      [''download'', ''data_split'']"
    unfolding split by (simp add: all_steps_def)
  with subset_runs_in_canonical_order [OF steps not_all valid pair] steps not_all valid split ok
  show ?thesis
    by simp
qed

text \<open>
  C9. A directive that is not exactly \<^verbatim>\<open>all\<close> is split at its commas and is never
  replaced by \<^verbatim>\<open>_steps\<close>; a piece \<^verbatim>\<open>all\<close> in it is the name of no stage, nothing
  is invoked under that name, and the stages invoked are those of the other pieces.
\<close>

theorem all_inside_a_list_is_no_stage:
  assumes "cfg config ''main'' ''steps'' = Inr (VStr d)"
    and "d \<noteq> ''all''"
    and "go ext config w = (r, w')"
  shows "active_steps (VStr d) = Inr (str_split CHR '','' d) \<and>
         ''all'' \<notin> set (map fst (invoked w w')) \<and>
         prefix (map fst (invoked w w'))
           (selected_steps (removeAll ''all'' (str_split CHR '','' d))) \<and>
         (r = None \<longrightarrow>
            map fst (invoked w w') =
              selected_steps (removeAll ''all'' (str_split CHR '','' d)))"
proof -
  have act: "active_of config = str_split CHR '','' d"
    using active_of_str [OF assms(1)] assms(2) by simp
  have pre: "prefix (map fst (invoked w w')) (selected_steps (str_split CHR '','' d))"
    using go_invoked_pair(1) [OF assms(3)] unfolding act .
  then have "set (map fst (invoked w w')) \<subseteq> set (selected_steps (str_split CHR '','' d))"
    by (rule set_mono_prefix)
  then have "''all'' \<notin> set (map fst (invoked w w'))"
    using all_not_a_step unfolding set_selected_steps by blast
  then show ?thesis
    using pre go_invoked_pair(2) [OF assms(3)] assms(2)
    unfolding act selected_steps_removeAll_all by (simp add: active_steps_def)
qed

text \<open>The directive \<^verbatim>\<open>all,download\<close> invokes \<open>download\<close> and nothing else.\<close>

theorem all_inside_a_list_is_no_stage_witness:
  "cfg (example_config ''all,download'') ''main'' ''steps'' = Inr (VStr ''all,download'') \<and>
   ''all,download'' \<noteq> ''all'' \<and>
   fst (go (example_externals None) (example_config ''all,download'') example_world) = None \<and>
   map fst (invoked example_world
     (snd (go (example_externals None) (example_config ''all,download'') example_world))) =
     [''download'']"
proof -
  let ?go = "go (example_externals None) (example_config ''all,download'') example_world"
  have steps: "cfg (example_config ''all,download'') ''main'' ''steps'' =
      Inr (VStr ''all,download'')"
    by (rule example_cfg)
  have not_all: "''all,download'' \<noteq> ''all''"
    by simp
  have pair: "?go = (fst ?go, snd ?go)"
    by simp
  have ok: "fst ?go = None"
    by (rule example_go_ok)
  have "selected_steps (removeAll ''all'' (str_split CHR '','' ''all,download'')) = [''download'']"
    by (simp add: selected_steps_def all_steps_def)
  with all_inside_a_list_is_no_stage [OF steps not_all pair] steps not_all ok show ?thesis
    by simp
qed

text \<open>
  C2, as stated, fails: the directive \<^verbatim>\<open>download,foo\<close> names \<open>foo\<close>, which is no
  stage, and the run raises nothing and invokes \<open>download\<close>.
\<close>

theorem unrecognized_name_is_not_rejected:
  "''foo'' \<in> set (str_split CHR '','' ''download,foo'') \<and>
   ''foo'' \<notin> set all_steps \<and>
   cfg (example_config ''download,foo'') ''main'' ''steps'' = Inr (VStr ''download,foo'') \<and>
   fst (go (example_externals None) (example_config ''download,foo'') example_world) = None \<and>
   invoked example_world
     (snd (go (example_externals None) (example_config ''download,foo'') example_world)) =
   [(''download'', example_download)]"
proof -
  have "''foo'' \<in> set (str_split CHR '','' ''download,foo'')"
    by simp
  moreover have "''foo'' \<notin> set all_steps"
    by (simp add: all_steps_def)
  ultimately show ?thesis
    using example_cfg(3) [of "''download,foo''"] example_go_ok [of "''download,foo''"]
      example_download_foo
    by simp
qed

text \<open>
  C2, amended. For every directive, computing the active steps does not fail, and names
  that are no stage are ignored: the pipeline is the one of the recognized names alone, and
  the stages invoked are the canonical stages among the names, in canonical order.
\<close>

theorem unrecognized_names_are_ignored:
  assumes "cfg config ''main'' ''steps'' = Inr (VStr d)"
    and "go ext config w = (r, w')"
  shows "(\<exists>active. active_steps (VStr d) = Inr active) \<and>
         pipeline ext config (active_of config) =
           pipeline ext config (filter (\<lambda>name. name \<in> set all_steps) (active_of config)) \<and>
         prefix (map fst (invoked w w'))
           (selected_steps (filter (\<lambda>name. name \<in> set all_steps) (active_of config))) \<and>
         (r = None \<longrightarrow>
            map fst (invoked w w') =
              selected_steps (filter (\<lambda>name. name \<in> set all_steps) (active_of config)))"
proof -
  let ?known = "filter (\<lambda>name. name \<in> set all_steps) (active_of config)"
  have same: "set ?known \<inter> set all_steps = set (active_of config) \<inter> set all_steps"
    by auto
  have sel: "selected_steps ?known = selected_steps (active_of config)"
    using same by (rule selected_steps_cong)
  have pipe: "pipeline ext config (active_of config) = pipeline ext config ?known"
    using same [symmetric] by (rule pipeline_cong)
  have never_fails: "\<exists>active. active_steps (VStr d) = Inr active"
    by (simp add: active_steps_def)
  show ?thesis
    unfolding sel using never_fails pipe go_invoked_pair [OF assms(2)]
    by blast
qed

text \<open>For \<^verbatim>\<open>download,foo\<close> the recognized names are \<open>download\<close>, which is invoked.\<close>

theorem unrecognized_names_are_ignored_witness:
  "cfg (example_config ''download,foo'') ''main'' ''steps'' = Inr (VStr ''download,foo'') \<and>
   filter (\<lambda>name. name \<in> set all_steps) (active_of (example_config ''download,foo'')) =
     [''download''] \<and>
   fst (go (example_externals None) (example_config ''download,foo'') example_world) = None \<and>
   map fst (invoked example_world
     (snd (go (example_externals None) (example_config ''download,foo'') example_world))) =
     [''download'']"
proof -
  let ?go = "go (example_externals None) (example_config ''download,foo'') example_world"
  have steps: "cfg (example_config ''download,foo'') ''main'' ''steps'' =
      Inr (VStr ''download,foo'')"
    by (rule example_cfg)
  have pair: "?go = (fst ?go, snd ?go)"
    by simp
  have ok: "fst ?go = None"
    by (rule example_go_ok)
  have known: "filter (\<lambda>name. name \<in> set all_steps)
      (active_of (example_config ''download,foo'')) = [''download'']"
    by (simp add: active_of_str [OF steps] all_steps_def)
  have "selected_steps [''download''] = [''download'']"
    by (simp add: selected_steps_def all_steps_def)
  with unrecognized_names_are_ignored [OF steps pair] steps ok known show ?thesis
    by simp
qed



text \<open>
  C6. The comment above the \<^verbatim>\<open>with\<close> block says that the driver moves to the temporary
  directory, but it never does: \<^verbatim>\<open>rf_config.json\<close> is written under the working
  directory of the process. With the directive \<^verbatim>\<open>train_random_forest\<close>, the working
  directory \<^verbatim>\<open>/work/outputs\<close> and the temporary directory \<^verbatim>\<open>/tmp/tmpk3x9\<close>, the stage is
  given \<^verbatim>\<open>/work/outputs/rf_config.json\<close>, which is not inside the temporary directory and
  is still there, with the dumped text, when the run is over.
\<close>

theorem rf_config_outside_the_temporary_directory:
  "mkdtemp (example_externals None) = Inr ''/tmp/tmpk3x9'' \<and>
   fst (go (example_externals None) (example_config ''train_random_forest'') example_world) =
     None \<and>
   invoked example_world
     (snd (go (example_externals None) (example_config ''train_random_forest'')
             example_world)) =
     [(''train_random_forest'',
       MlflowRun ''/work/src/train_random_forest'' ''main''
         [(''trainval_artifact'', VStr ''trainval_data.csv:latest''),
          (''val_size'', VFloat (1 / 5)),
          (''random_seed'', VInt 42),
          (''stratify_by'', VStr ''neighbourhood_group''),
          (''rf_config'', VStr ''/work/outputs/rf_config.json''),
          (''max_tfidf_features'', VInt 5),
          (''output_artifact'', VStr ''random_forest_export'')])] \<and>
   \<not> inside ''/tmp/tmpk3x9'' ''/work/outputs/rf_config.json'' \<and>
   files (snd (go (example_externals None) (example_config ''train_random_forest'')
                 example_world)) ''/work/outputs/rf_config.json'' =
     Some (fst (json_dump (example_externals None)
                  [(''n_estimators'', VInt 100), (''max_depth'', VInt 15)]))"
proof -
  let ?go = "go (example_externals None) (example_config ''train_random_forest'') example_world"
  have log: "invoked example_world (snd ?go) =
     [(''train_random_forest'',
       MlflowRun ''/work/src/train_random_forest'' ''main''
         [(''trainval_artifact'', VStr ''trainval_data.csv:latest''),
          (''val_size'', VFloat (1 / 5)),
          (''random_seed'', VInt 42),
          (''stratify_by'', VStr ''neighbourhood_group''),
          (''rf_config'', VStr ''/work/outputs/rf_config.json''),
          (''max_tfidf_features'', VInt 5),
          (''output_artifact'', VStr ''random_forest_export'')])]"
    by (simp add: example_defs driver_defs stage_defs call_defs)
  have outside: "\<not> inside ''/tmp/tmpk3x9'' ''/work/outputs/rf_config.json''"
    by (simp add: inside_def)
  have left: "files (snd ?go) ''/work/outputs/rf_config.json'' =
     Some (fst (json_dump (example_externals None)
                  [(''n_estimators'', VInt 100), (''max_depth'', VInt 15)]))"
    by (simp add: example_defs driver_defs stage_defs call_defs inside_def)
  show ?thesis
    using example_mkdtemp [of None] example_go_ok [of "''train_random_forest''"] log outside left
    by (intro conjI)
qed

end
